theory Spec2Isabelle
  imports Complex_Main
begin

section \<open>JavaScript numbers used by the grid\<close>

text \<open>
  The component computes with JavaScript numbers. The values that occur are array
  lengths, row indices and small integer quotients, for which IEEE double arithmetic
  is exact up to the final rounding of a quotient; a quotient \<open>n / c\<close> of two array
  lengths is never rounded onto an integer it does not equal, so \<open>Math.ceil\<close> of
  the double is the ceiling of the exact rational. The model keeps the exact rational
  and the two non-finite results a division by zero has in JavaScript.
\<close>

datatype jsnum = Num rat | Infinity | NaN

text \<open>\<open>a / b\<close> for two non-negative integers (an array length and a column count).\<close>

definition js_div :: "nat \<Rightarrow> nat \<Rightarrow> jsnum" where
  "js_div a b =
     (if b = 0 then (if a = 0 then NaN else Infinity)
      else Num (of_nat a / of_nat b))"

fun Math_ceil :: "jsnum \<Rightarrow> jsnum" where
  "Math_ceil (Num q) = Num (of_int \<lceil>q\<rceil>)"
| "Math_ceil Infinity = Infinity"
| "Math_ceil NaN = NaN"

text \<open>\<open>a - t\<close> and \<open>i >= b\<close> for a finite right operand \<open>t\<close> and a finite left operand \<open>i\<close>.\<close>

fun js_sub :: "jsnum \<Rightarrow> rat \<Rightarrow> jsnum" where
  "js_sub (Num a) t = Num (a - t)"
| "js_sub Infinity t = Infinity"
| "js_sub NaN t = NaN"

fun js_ge :: "rat \<Rightarrow> jsnum \<Rightarrow> bool" where
  "js_ge i (Num b) = (b \<le> i)"
| "js_ge i Infinity = False"
| "js_ge i NaN = False"

section \<open>Column detection\<close>

text \<open>
  \<open>String.prototype.split\<close> with a one-character separator: the pieces between
  the separators, empty pieces included. The result is never empty; the empty string
  splits into one empty piece.
\<close>

fun js_split :: "string \<Rightarrow> char \<Rightarrow> string list" where
  "js_split [] sep = [[]]"
| "js_split (c # cs) sep =
     (if c = sep then [] # js_split cs sep
      else (case js_split cs sep of
              w # ws \<Rightarrow> (c # w) # ws
            | [] \<Rightarrow> [[c]]))"

text \<open>
  \<open>detectColumns\<close>: \<open>probe\<close> is \<open>None\<close> when \<open>probeRef.current\<close> is null, and otherwise
  the \<open>gridTemplateColumns\<close> string of the probe's computed style. The result is the
  value of the \<open>columns\<close> state after the call (\<open>setColumns\<close> is the only writer).
\<close>

definition detectColumns :: "string option \<Rightarrow> nat \<Rightarrow> nat" where
  "detectColumns probe columns =
     (case probe of
        None \<Rightarrow> columns
      | Some gridTemplateColumns \<Rightarrow>
          (let cols = length (js_split gridTemplateColumns CHR '' '')
           in if cols > 0 \<and> cols \<noteq> columns then cols else columns))"

text \<open>The state is created by \<open>useState(3)\<close>; every later value comes from a detection pass.\<close>

definition initialColumns :: nat where
  "initialColumns = 3"

fun columnsAfter :: "nat \<Rightarrow> string option list \<Rightarrow> nat" where
  "columnsAfter columns [] = columns"
| "columnsAfter columns (probe # probes) = columnsAfter (detectColumns probe columns) probes"

section \<open>Row partitioning\<close>

definition rowCount :: "'a list \<Rightarrow> nat \<Rightarrow> jsnum" where
  "rowCount items columns = Math_ceil (js_div (length items) columns)"

text \<open>
  \<open>Array.prototype.slice(start, end)\<close>: a negative bound counts from the end, and both
  bounds are clamped to the array.
\<close>

definition slice :: "'a list \<Rightarrow> int \<Rightarrow> int \<Rightarrow> 'a list" where
  "slice xs start end =
     (let len = int (length xs);
          k = (if start < 0 then max (len + start) 0 else min start len);
          final = (if end < 0 then max (len + end) 0 else min end len)
      in take (nat (final - k)) (drop (nat k) xs))"

definition rowItems :: "'a list \<Rightarrow> nat \<Rightarrow> nat \<Rightarrow> 'a list" where
  "rowItems items columns index =
     (let startIdx = index * columns
      in slice items (int startIdx) (int (startIdx + columns)))"

text \<open>The spec's notation: \<open>ceil(N / C)\<close> over the reals, and \<open>items[a : b]\<close>.\<close>

definition ceil_spec :: "nat \<Rightarrow> nat \<Rightarrow> int" where
  "ceil_spec N C = \<lceil>real N / real C\<rceil>"

definition range_spec :: "'a list \<Rightarrow> nat \<Rightarrow> nat \<Rightarrow> 'a list" where
  "range_spec xs a b = take (b - a) (drop a xs)"

section \<open>Scroll surface selection\<close>

datatype scroll_element = DocumentElement | Body

text \<open>What \<open>getScrollElement\<close> reads from \<open>document.documentElement\<close>.\<close>

record document_element =
  scrollTop :: rat
  scrollHeight :: int
  clientHeight :: int

datatype js_error = ReferenceError

text \<open>
  \<open>window_defined\<close> is the test \<open>typeof window !== 'undefined'\<close>. \<open>document\<close> is
  \<open>None\<close> where no global \<open>document\<close> exists, and otherwise holds what the function
  reads from \<open>document.documentElement\<close>. Both branches evaluate the global
  \<open>document\<close>, which throws a ReferenceError where it does not exist.
\<close>

definition getScrollElement ::
  "bool \<Rightarrow> document_element option \<Rightarrow> js_error + scroll_element" where
  "getScrollElement window_defined document =
     (if window_defined then
        (case document of
           None \<Rightarrow> Inl ReferenceError
         | Some documentElement \<Rightarrow>
             Inr (if scrollTop documentElement > 0
                     \<or> scrollHeight documentElement > clientHeight documentElement
                  then DocumentElement
                  else Body))
      else
        (case document of
           None \<Rightarrow> Inl ReferenceError
         | Some documentElement \<Rightarrow> Inr Body))"

section \<open>End-of-list detection\<close>

text \<open>
  The effect of lines 81 to 96. \<open>endReached\<close> says whether the callback was passed,
  \<open>virtualRows\<close> holds the \<open>index\<close> fields of the rendered virtual rows in order, and
  the last argument is \<open>lastVirtualRowRef.current\<close> (created as \<open>-1\<close>). The result is
  the ref after the effect and whether \<open>endReached()\<close> was called.
\<close>

definition endReachedEffect ::
  "bool \<Rightarrow> nat list \<Rightarrow> jsnum \<Rightarrow> rat \<Rightarrow> int \<Rightarrow> int \<times> bool" where
  "endReachedEffect endReached virtualRows rowCnt endReachedThreshold lastVirtualRowRef =
     (if \<not> endReached \<or> length virtualRows = 0 then (lastVirtualRowRef, False)
      else
        (let lastRowIndex = last virtualRows
         in if js_ge (of_nat lastRowIndex) (js_sub rowCnt endReachedThreshold)
               \<and> int lastRowIndex \<noteq> lastVirtualRowRef
            then (int lastRowIndex, True)
            else (lastVirtualRowRef, False)))"

definition initialLastVirtualRowRef :: int where
  "initialLastVirtualRowRef = -1"

text \<open>
  An execution: the effect runs once per render, each render with its own virtual rows
  and row count; the ref is carried from one run to the next. The result lists, per
  render, whether the notification was sent.
\<close>

fun runEffects :: "bool \<Rightarrow> rat \<Rightarrow> int \<Rightarrow> (nat list \<times> jsnum) list \<Rightarrow> bool list" where
  "runEffects endReached threshold ref [] = []"
| "runEffects endReached threshold ref ((virtualRows, rowCnt) # renders) =
     (let (ref', fired) = endReachedEffect endReached virtualRows rowCnt threshold ref
      in fired # runEffects endReached threshold ref' renders)"

section \<open>The scroll window engine\<close>

text \<open>
  Modelled from the spec: the virtualizer behind \<open>useVirtualizer\<close>, \<open>getVirtualItems\<close>,
  \<open>getTotalSize\<close> and \<open>measureElement\<close> is the imported package
  \<open>@tanstack/react-virtual\<close>, which is not part of the source file. The definitions of
  this section follow section 4.3 of the specification (ScrollWindowEngine): its state,
  \<open>offsetOf\<close>, \<open>totalSize\<close>, \<open>reportMeasured\<close> and \<open>visibleWindow\<close>.
\<close>

record engine =
  sizeTable :: "nat \<rightharpoonup> rat"
  rowTotal :: nat
  overscan :: nat
  estimateRowHeight :: rat
  scrollOffset :: rat
  viewportExtent :: rat

text \<open>Modelled from the spec: a fresh engine has measured no row.\<close>

definition newEngine :: "nat \<Rightarrow> nat \<Rightarrow> rat \<Rightarrow> rat \<Rightarrow> rat \<Rightarrow> engine" where
  "newEngine n ov est off ext =
     \<lparr>sizeTable = Map.empty, rowTotal = n, overscan = ov, estimateRowHeight = est,
      scrollOffset = off, viewportExtent = ext\<rparr>"

text \<open>Modelled from the spec: the table entry of a row, or the estimate default.\<close>

definition rowSize :: "engine \<Rightarrow> nat \<Rightarrow> rat" where
  "rowSize e r = (case sizeTable e r of Some h \<Rightarrow> h | None \<Rightarrow> estimateRowHeight e)"

text \<open>Modelled from the spec: \<open>offsetOf(r)\<close> is the sum of the sizes of rows \<open>[0, r)\<close>.\<close>

definition offsetOf :: "engine \<Rightarrow> nat \<Rightarrow> rat" where
  "offsetOf e r = sum_list (map (rowSize e) [0..<r])"

text \<open>Modelled from the spec: \<open>totalSize()\<close> is the sum over all rows.\<close>

definition totalSize :: "engine \<Rightarrow> rat" where
  "totalSize e = sum_list (map (rowSize e) [0..<rowTotal e])"

text \<open>Modelled from the spec: \<open>reportMeasured(r, heightPx)\<close> overwrites the entry of row \<open>r\<close>.\<close>

definition reportMeasured :: "engine \<Rightarrow> nat \<Rightarrow> rat \<Rightarrow> engine" where
  "reportMeasured e r heightPx = e\<lparr>sizeTable := (sizeTable e)(r \<mapsto> heightPx)\<rparr>"

fun reportAll :: "engine \<Rightarrow> (nat \<times> rat) list \<Rightarrow> engine" where
  "reportAll e [] = e"
| "reportAll e ((r, heightPx) # calls) = reportAll (reportMeasured e r heightPx) calls"

text \<open>The latest height reported for a row in a sequence of calls, if there is one.\<close>

definition latestReported :: "(nat \<times> rat) list \<Rightarrow> nat \<Rightarrow> rat option" where
  "latestReported calls r = map_of (rev calls) r"

text \<open>
  Modelled from the spec: the first row whose cumulative offset plus size exceeds the
  scroll offset, and the last row whose cumulative offset is less than the scroll offset
  plus the viewport extent.
\<close>

definition firstVisible :: "engine \<Rightarrow> nat option" where
  "firstVisible e =
     List.find (\<lambda>r. scrollOffset e - 0 < offsetOf e r + rowSize e r) [0..<rowTotal e]"

definition lastVisible :: "engine \<Rightarrow> nat option" where
  "lastVisible e =
     List.find (\<lambda>r. offsetOf e r < scrollOffset e + viewportExtent e) (rev [0..<rowTotal e])"

text \<open>
  Modelled from the spec: both ends are expanded by \<open>overscan\<close> rows and clamped to
  \<open>[0, rowCount)\<close> (the subtraction on \<open>nat\<close> stops at 0). The specification does not
  say what the window is when no row qualifies as first or as last; the model returns
  the empty window there, as it does for \<open>rowCount = 0\<close>.
\<close>

definition visibleWindow :: "engine \<Rightarrow> nat list" where
  "visibleWindow e =
     (case firstVisible e of
        None \<Rightarrow> []
      | Some f \<Rightarrow>
          (case lastVisible e of
             None \<Rightarrow> []
           | Some l \<Rightarrow> [f - overscan e ..< Suc (min (l + overscan e) (rowTotal e - 1))]))"

section \<open>Row count and row slices\<close>

lemma div_up_bounds:
  fixes N C :: nat
  assumes "0 < C"
  shows "N \<le> ((N + C - 1) div C) * C" and "((N + C - 1) div C) * C < N + C"
proof -
  let ?k = "(N + C - 1) div C"
  have m: "(N + C - 1) mod C < C" using assms by simp
  have e: "?k * C + (N + C - 1) mod C = N + C - 1" by simp
  from m e assms show "N \<le> ?k * C" by linarith
  from e assms show "?k * C < N + C" by linarith
qed

lemma ceiling_div_up:
  fixes N C :: nat
  assumes "0 < C"
  shows "\<lceil>(of_nat N :: 'a :: {floor_ceiling}) / of_nat C\<rceil> = int ((N + C - 1) div C)"
proof -
  let ?k = "(N + C - 1) div C"
  have c: "(0::'a) < of_nat C" using assms by simp
  have "of_nat N \<le> (of_nat (?k * C) :: 'a)"
    using div_up_bounds(1)[OF assms, of N] by (simp only: of_nat_le_iff)
  then have up: "(of_nat N :: 'a) / of_nat C \<le> of_int (int ?k)"
    using c by (simp add: divide_le_eq)
  have "(of_nat (?k * C) :: 'a) < of_nat (N + C)"
    using div_up_bounds(2)[OF assms, of N] by (simp only: of_nat_less_iff)
  then have lo: "of_int (int ?k) - 1 < (of_nat N :: 'a) / of_nat C"
    using c by (simp add: less_divide_eq algebra_simps)
  show ?thesis using up lo by (simp add: ceiling_eq_iff)
qed

lemma rowCount_div_up:
  assumes "0 < C"
  shows "rowCount items C = Num (of_nat ((length items + C - 1) div C))"
  using assms ceiling_div_up[OF assms, of "length items", where ?'a = rat]
  by (simp add: rowCount_def js_div_def)

text \<open>
  Claim C1. For every item count \<open>N \<ge> 0\<close> and column count \<open>C \<ge> 1\<close> the computed row
  count is \<open>ceil(N / C)\<close>, which is the integer \<open>(N + C - 1) div C\<close>, and the row count
  of the empty sequence is 0.
\<close>

theorem rowCount_is_ceiling:
  assumes "1 \<le> C"
  shows "rowCount items C = Num (of_int (ceil_spec (length items) C))
       \<and> rowCount items C = Num (of_nat ((length items + C - 1) div C))
       \<and> rowCount ([] :: 'a list) C = Num 0"
proof -
  have c: "0 < C" using assms by simp
  have "ceil_spec (length items) C = int ((length items + C - 1) div C)"
    unfolding ceil_spec_def by (rule ceiling_div_up[OF c])
  moreover have "rowCount ([] :: 'a list) C = Num 0"
    using c by (simp add: rowCount_def js_div_def)
  ultimately show ?thesis
    using rowCount_div_up[OF c, of items] by simp
qed

theorem rowCount_is_ceiling_witness:
  "(1::nat) \<le> 3
   \<and> rowCount [10, 20, 30, 40, 50, 60, 70 :: nat] 3 = Num 3
   \<and> rowCount ([] :: nat list) 3 = Num 0"
  using rowCount_is_ceiling[of 3 "[10, 20, 30, 40, 50, 60, 70 :: nat]"]
  by (simp add: ceil_spec_def)

lemma slice_nat_bounds:
  "slice xs (int a) (int b)
     = take (min b (length xs) - min a (length xs)) (drop (min a (length xs)) xs)"
proof -
  have k: "min (int a) (int (length xs)) = int (min a (length xs))" by simp
  have f: "min (int b) (int (length xs)) = int (min b (length xs))" by simp
  have d: "nat (int (min b (length xs)) - int (min a (length xs)))
             = min b (length xs) - min a (length xs)"
    by linarith
  show ?thesis
    unfolding slice_def Let_def by (simp only: k f d of_nat_less_0_iff if_False nat_int)
qed

lemma rowItems_take_drop:
  "rowItems items C r = take C (drop (r * C) items)"
proof (cases "r * C \<le> length items")
  case True
  then show ?thesis
    unfolding rowItems_def Let_def slice_nat_bounds
    by (cases "r * C + C \<le> length items") (simp_all add: min_def)
next
  case False
  then show ?thesis
    unfolding rowItems_def Let_def slice_nat_bounds by (simp add: min_def)
qed

lemma rowItems_range_spec:
  "rowItems items C r = range_spec items (r * C) (min ((r + 1) * C) (length items))"
  unfolding rowItems_take_drop range_spec_def
  by (cases "r * C + C \<le> length items") (simp_all add: min_def)

lemma concat_rowItems:
  "concat (map (rowItems items C) [0..<k]) = take (k * C) items"
proof (induction k)
  case 0
  show ?case by simp
next
  case (Suc k)
  have "take (Suc k * C) items = take (k * C + C) items" by (simp add: add.commute)
  also have "\<dots> = take (k * C) items @ take C (drop (k * C) items)" by (rule take_add)
  finally show ?case using Suc.IH by (simp add: rowItems_take_drop)
qed

lemma rowItems_beyond:
  assumes "length items \<le> r * C"
  shows "rowItems items C r = []"
  using assms by (simp add: rowItems_take_drop)

text \<open>
  Claim C2. For a column count \<open>C \<ge> 1\<close>, the items of row \<open>r\<close> are the slice
  \<open>items[r*C : min((r+1)*C, N)]\<close>; the rows below the row count \<open>ceil(N / C)\<close>
  concatenate to the whole sequence, so their lengths sum to \<open>N\<close>; and every row at or
  past the row count is empty.
\<close>

theorem rowItems_partition:
  assumes "1 \<le> C"
  shows "rowItems items C r = range_spec items (r * C) (min ((r + 1) * C) (length items))
       \<and> (\<exists>k. rowCount items C = Num (of_nat k)
              \<and> int k = ceil_spec (length items) C
              \<and> concat (map (rowItems items C) [0..<k]) = items
              \<and> sum_list (map (\<lambda>i. length (rowItems items C i)) [0..<k]) = length items
              \<and> (\<forall>j\<ge>k. rowItems items C j = []))"
proof -
  have c: "0 < C" using assms by simp
  let ?k = "(length items + C - 1) div C"
  have cover: "length items \<le> ?k * C" by (rule div_up_bounds(1)[OF c])
  have cat: "concat (map (rowItems items C) [0..<?k]) = items"
    using cover by (simp add: concat_rowItems)
  have "length (concat (map (rowItems items C) [0..<?k])) = length items"
    by (simp only: cat)
  then have len: "sum_list (map (\<lambda>i. length (rowItems items C i)) [0..<?k]) = length items"
    by (simp add: length_concat comp_def)
  have beyond: "\<forall>j\<ge>?k. rowItems items C j = []"
  proof (intro allI impI)
    fix j assume "?k \<le> j"
    then have "?k * C \<le> j * C" by simp
    with cover have "length items \<le> j * C" by linarith
    then show "rowItems items C j = []" by (rule rowItems_beyond)
  qed
  have ceil: "int ?k = ceil_spec (length items) C"
    unfolding ceil_spec_def by (rule ceiling_div_up[OF c, symmetric])
  show ?thesis
    using rowItems_range_spec[of items C r] rowCount_div_up[OF c, of items] cat len beyond ceil
    by blast
qed

theorem rowItems_partition_witness:
  "(1::nat) \<le> 3
   \<and> rowItems [10, 20, 30, 40, 50, 60, 70 :: nat] 3 2 = [70]
   \<and> rowCount [10, 20, 30, 40, 50, 60, 70 :: nat] 3 = Num 3
   \<and> concat (map (rowItems [10, 20, 30, 40, 50, 60, 70 :: nat] 3) [0..<3])
       = [10, 20, 30, 40, 50, 60, 70]
   \<and> rowItems [10, 20, 30, 40, 50, 60, 70 :: nat] 3 5 = []"
proof -
  have rc: "rowCount [10, 20, 30, 40, 50, 60, 70 :: nat] 3 = Num 3"
    using rowCount_div_up[of 3 "[10, 20, 30, 40, 50, 60, 70 :: nat]"] by simp
  show ?thesis
    using rowItems_partition[of 3 "[10, 20, 30, 40, 50, 60, 70 :: nat]" 2]
    by (auto simp add: rc range_spec_def)
qed

section \<open>The visible window\<close>

lemma find_in_set: "List.find P xs = Some x \<Longrightarrow> x \<in> set xs"
  by (induction xs) (auto split: if_splits)

lemma firstVisible_bound: "firstVisible e = Some f \<Longrightarrow> f < rowTotal e"
  unfolding firstVisible_def by (drule find_in_set) simp

lemma lastVisible_bound: "lastVisible e = Some l \<Longrightarrow> l < rowTotal e"
  unfolding lastVisible_def by (drule find_in_set) simp

lemma rowSize_overscan: "rowSize (e\<lparr>overscan := ov\<rparr>) = rowSize e"
  by (rule ext) (simp add: rowSize_def split: option.splits)

lemma firstVisible_overscan: "firstVisible (e\<lparr>overscan := ov\<rparr>) = firstVisible e"
  by (simp add: firstVisible_def offsetOf_def rowSize_overscan)

lemma lastVisible_overscan: "lastVisible (e\<lparr>overscan := ov\<rparr>) = lastVisible e"
  by (simp add: lastVisible_def offsetOf_def rowSize_overscan)

lemma visibleWindow_contiguous: "\<exists>lo hi. visibleWindow e = [lo..<hi]"
proof (cases "firstVisible e")
  case None
  then have "visibleWindow e = [0..<0]" by (simp add: visibleWindow_def)
  then show ?thesis by blast
next
  case (Some f)
  show ?thesis
  proof (cases "lastVisible e")
    case None
    with Some have "visibleWindow e = [0..<0]" by (simp add: visibleWindow_def)
    then show ?thesis by blast
  next
    case (Some l)
    with \<open>firstVisible e = Some f\<close> show ?thesis
      unfolding visibleWindow_def by (simp only: option.case) blast
  qed
qed

lemma visibleWindow_Some:
  assumes "firstVisible e = Some f" and "lastVisible e = Some l"
  shows "visibleWindow e = [f - overscan e ..< Suc (min (l + overscan e) (rowTotal e - 1))]"
  using assms by (simp add: visibleWindow_def)

lemma visibleWindow_bounded:
  assumes "i \<in> set (visibleWindow e)"
  shows "i < rowTotal e"
proof (cases "firstVisible e")
  case None
  with assms show ?thesis by (simp add: visibleWindow_def)
next
  case f: (Some f)
  show ?thesis
  proof (cases "lastVisible e")
    case None
    with assms f show ?thesis by (simp add: visibleWindow_def)
  next
    case l: (Some l)
    from f have pos: "0 < rowTotal e" using firstVisible_bound by fastforce
    from assms have "i < Suc (min (l + overscan e) (rowTotal e - 1))"
      unfolding visibleWindow_Some[OF f l] by (simp only: set_upt atLeastLessThan_iff)
    with pos show ?thesis by linarith
  qed
qed

lemma visibleWindow_overscan_mono:
  assumes "ov \<le> ov'"
  shows "length (visibleWindow (e\<lparr>overscan := ov\<rparr>))
           \<le> length (visibleWindow (e\<lparr>overscan := ov'\<rparr>))"
proof (cases "firstVisible e")
  case None
  then show ?thesis by (simp add: visibleWindow_def firstVisible_overscan)
next
  case f: (Some f)
  show ?thesis
  proof (cases "lastVisible e")
    case None
    with f show ?thesis
      by (simp add: visibleWindow_def firstVisible_overscan lastVisible_overscan)
  next
    case l: (Some l)
    have w: "\<And>k. visibleWindow (e\<lparr>overscan := k\<rparr>)
                 = [f - k ..< Suc (min (l + k) (rowTotal e - 1))]"
      using visibleWindow_Some[of "e\<lparr>overscan := k\<rparr>" f l for k] f l
      by (simp add: firstVisible_overscan lastVisible_overscan)
    have "Suc (min (l + ov) (rowTotal e - 1)) - (f - ov)
            \<le> Suc (min (l + ov') (rowTotal e - 1)) - (f - ov')"
      using assms by linarith
    then show ?thesis by (simp only: w length_upt)
  qed
qed

text \<open>
  Claim C3. The visible window is a contiguous range of row indices, each of its indices
  is below the row count, and its length does not decrease when the overscan grows with
  all other inputs fixed.
\<close>

theorem visibleWindow_contiguous_bounded_monotone:
  "(\<exists>lo hi. visibleWindow e = [lo..<hi])
   \<and> (\<forall>i \<in> set (visibleWindow e). i < rowTotal e)
   \<and> (ov \<le> ov' \<longrightarrow>
        length (visibleWindow (e\<lparr>overscan := ov\<rparr>))
          \<le> length (visibleWindow (e\<lparr>overscan := ov'\<rparr>)))"
  using visibleWindow_contiguous[of e] visibleWindow_bounded[of _ e]
    visibleWindow_overscan_mono[of ov ov' e]
  by blast

theorem visibleWindow_contiguous_bounded_monotone_witness:
  "visibleWindow (newEngine 4 1 100 0 150) = [0, 1, 2]
   \<and> (2::nat) < rowTotal (newEngine 4 1 100 0 150)
   \<and> (1::nat) \<le> 3
   \<and> length (visibleWindow ((newEngine 4 1 100 0 150)\<lparr>overscan := 1\<rparr>))
        \<le> length (visibleWindow ((newEngine 4 1 100 0 150)\<lparr>overscan := 3\<rparr>))"
proof -
  have "visibleWindow (newEngine 4 1 100 0 150) = [0, 1, 2]" by code_simp
  then show ?thesis
    using visibleWindow_contiguous_bounded_monotone[of "newEngine 4 1 100 0 150" 1 3]
    by simp
qed

section \<open>Measured heights and total size\<close>

lemma table_snoc:
  "m ++ map_of (rev ((r, h) # calls)) = m(r \<mapsto> h) ++ map_of (rev calls)"
  by (rule ext) (simp add: map_add_def split: option.splits)

lemma reportAll_table:
  "reportAll e calls = e\<lparr>sizeTable := sizeTable e ++ map_of (rev calls)\<rparr>"
proof (induction calls arbitrary: e)
  case Nil
  show ?case by simp
next
  case (Cons c calls)
  obtain r h where c: "c = (r, h)" by (cases c)
  have "reportAll e (c # calls) = reportAll (reportMeasured e r h) calls"
    by (simp add: c)
  also have "\<dots> = (reportMeasured e r h)
      \<lparr>sizeTable := sizeTable (reportMeasured e r h) ++ map_of (rev calls)\<rparr>"
    by (rule Cons.IH)
  also have "\<dots> = e\<lparr>sizeTable := (sizeTable e)(r \<mapsto> h) ++ map_of (rev calls)\<rparr>"
    by (simp add: reportMeasured_def)
  also have "\<dots> = e\<lparr>sizeTable := sizeTable e ++ map_of (rev (c # calls))\<rparr>"
    by (simp only: c table_snoc)
  finally show ?case .
qed

lemma rowSize_reportAll:
  "rowSize (reportAll e calls) r
     = (case latestReported calls r of Some h \<Rightarrow> h | None \<Rightarrow> rowSize e r)"
  by (simp add: reportAll_table rowSize_def latestReported_def map_add_def
        split: option.splits)

lemma rowTotal_reportAll: "rowTotal (reportAll e calls) = rowTotal e"
  by (simp add: reportAll_table)

lemma totalSize_reportAll:
  "totalSize (reportAll e calls)
     = sum_list (map (\<lambda>r. case latestReported calls r of Some h \<Rightarrow> h | None \<Rightarrow> rowSize e r)
                  [0..<rowTotal e])"
proof -
  have "rowSize (reportAll e calls)
          = (\<lambda>r. case latestReported calls r of Some h \<Rightarrow> h | None \<Rightarrow> rowSize e r)"
    by (rule ext) (rule rowSize_reportAll)
  then show ?thesis
    unfolding totalSize_def by (simp only: rowTotal_reportAll)
qed

lemma rowSize_newEngine: "rowSize (newEngine n ov est off ext) r = est"
  by (simp add: rowSize_def newEngine_def)

lemma reportMeasured_commute:
  assumes "r1 \<noteq> r2"
  shows "reportMeasured (reportMeasured e r1 h1) r2 h2
           = reportMeasured (reportMeasured e r2 h2) r1 h1"
  using assms by (simp add: reportMeasured_def fun_upd_twist)

lemma reportMeasured_idem:
  "reportMeasured (reportMeasured e r h) r h = reportMeasured e r h"
  by (simp add: reportMeasured_def)

lemma reportAll_order:
  assumes "distinct (map fst calls)" and "distinct (map fst calls')"
    and "set calls = set calls'"
  shows "reportAll e calls = reportAll e calls'"
proof -
  have "map_of (rev calls) = map_of (rev calls')"
    using assms by (simp add: map_of_inject_set rev_map[symmetric])
  then show ?thesis by (simp add: reportAll_table)
qed

text \<open>
  Claim C6. After any sequence of \<open>reportMeasured\<close> calls on a fresh engine, \<open>totalSize\<close>
  is the sum over all rows of the latest height reported for the row, or of the estimate
  for a row never reported; two reports for distinct rows commute, so a sequence of
  reports for distinct rows gives the same engine in any order; and reporting the same
  height for the same row a second time changes nothing.
\<close>

theorem totalSize_latest_reported:
  "totalSize (reportAll (newEngine n ov est off ext) calls)
     = sum_list (map (\<lambda>r. case latestReported calls r of Some h \<Rightarrow> h | None \<Rightarrow> est) [0..<n])
   \<and> (r1 \<noteq> r2 \<longrightarrow>
        reportMeasured (reportMeasured e r1 h1) r2 h2
          = reportMeasured (reportMeasured e r2 h2) r1 h1)
   \<and> (distinct (map fst calls) \<and> distinct (map fst calls') \<and> set calls = set calls' \<longrightarrow>
        reportAll e calls = reportAll e calls'
        \<and> totalSize (reportAll e calls) = totalSize (reportAll e calls'))
   \<and> reportMeasured (reportMeasured e r h) r h = reportMeasured e r h
   \<and> totalSize (reportMeasured (reportMeasured e r h) r h) = totalSize (reportMeasured e r h)"
proof -
  have "totalSize (reportAll (newEngine n ov est off ext) calls)
     = sum_list (map (\<lambda>r. case latestReported calls r of Some h \<Rightarrow> h | None \<Rightarrow> est) [0..<n])"
  proof -
    have "rowSize (newEngine n ov est off ext) = (\<lambda>r. est)"
      by (rule ext) (rule rowSize_newEngine)
    moreover have "rowTotal (newEngine n ov est off ext) = n"
      by (simp add: newEngine_def)
    ultimately show ?thesis
      unfolding totalSize_reportAll by (simp only:)
  qed
  then show ?thesis
    using reportMeasured_commute[of r1 r2 e h1 h2] reportAll_order[of calls calls' e]
      reportMeasured_idem[of e r h]
    by simp
qed

theorem totalSize_latest_reported_witness:
  "totalSize (reportAll (newEngine 4 1 100 0 50) [(1, 50), (2, 30)]) = 280
   \<and> (1::nat) \<noteq> 2
   \<and> reportMeasured (reportMeasured (newEngine 4 1 100 0 50) 1 50) 2 30
       = reportMeasured (reportMeasured (newEngine 4 1 100 0 50) 2 30) 1 50
   \<and> distinct (map fst [(1::nat, 50::rat), (2, 30)])
   \<and> distinct (map fst [(2::nat, 30::rat), (1, 50)])
   \<and> set [(1::nat, 50::rat), (2, 30)] = set [(2, 30), (1, 50)]
   \<and> reportAll (newEngine 4 1 100 0 50) [(1, 50), (2, 30)]
       = reportAll (newEngine 4 1 100 0 50) [(2, 30), (1, 50)]
   \<and> totalSize (reportMeasured (reportMeasured (newEngine 4 1 100 0 50) 1 50) 1 50)
       = totalSize (reportMeasured (newEngine 4 1 100 0 50) 1 50)"
proof -
  have s: "set [(1::nat, 50::rat), (2, 30)] = set [(2, 30), (1, 50)]" by auto
  have u: "[0..<4] = [0, 1, 2, 3]" by code_simp
  show ?thesis
    using totalSize_latest_reported[of 4 1 100 0 50 "[(1, 50), (2, 30)]" 1 2
        "newEngine 4 1 100 0 50" 50 30 "[(2, 30), (1, 50)]" 1 50] s
    by (simp add: latestReported_def u)
qed

section \<open>Column count, scroll surface and end-of-list detection\<close>

lemma js_split_nonempty: "0 < length (js_split s sep)"
  by (induction s) (simp_all split: list.splits)

lemma detectColumns_positive: "1 \<le> c \<Longrightarrow> 1 \<le> detectColumns probe c"
  using js_split_nonempty[of _ "CHR '' ''"]
  by (cases probe) (simp_all add: detectColumns_def Let_def Suc_le_eq)

lemma columnsAfter_positive: "1 \<le> c \<Longrightarrow> 1 \<le> columnsAfter c probes"
proof (induction probes arbitrary: c)
  case Nil
  then show ?case by simp
next
  case (Cons probe probes)
  from Cons.prems have "1 \<le> detectColumns probe c" by (rule detectColumns_positive)
  then have "1 \<le> columnsAfter (detectColumns probe c) probes" by (rule Cons.IH)
  then show ?case by simp
qed


text \<open>
  Claim C8. The column count starts at 3 and stays at least 1 after any sequence of
  detection passes, so the quotient taken by \<open>rowCount\<close> never has a zero divisor: the
  row count is always a finite natural number, never \<open>Infinity\<close> or \<open>NaN\<close>.
\<close>

theorem columns_always_positive:
  "initialColumns = 3
   \<and> 1 \<le> columnsAfter initialColumns probes
   \<and> (\<exists>k. rowCount items (columnsAfter initialColumns probes) = Num (of_nat k))
   \<and> rowCount items (columnsAfter initialColumns probes) \<noteq> Infinity
   \<and> rowCount items (columnsAfter initialColumns probes) \<noteq> NaN"
proof -
  have p: "1 \<le> columnsAfter initialColumns probes"
    by (rule columnsAfter_positive) (simp add: initialColumns_def)
  then have "0 < columnsAfter initialColumns probes" by simp
  from rowCount_div_up[OF this, of items] p show ?thesis
    by (simp add: initialColumns_def)
qed

text \<open>
  Claim C7. The guard \<open>cols > 0\<close> is meant to keep the published value when the template
  has no entries, but \<open>split\<close> gives one piece for the empty string: with 3 published and
  an empty resolved template, the pass publishes 1.
\<close>

theorem detectColumns_empty_template:
  "detectColumns (Some []) 3 = 1 \<and> detectColumns (Some []) 3 \<noteq> 3"
  by (simp add: detectColumns_def)

text \<open>
  A detection pass changes the published value only to a detected count different from
  it; a missing probe changes nothing.
\<close>

lemma detectColumns_republish:
  "detectColumns probe columns \<noteq> columns \<Longrightarrow>
     \<exists>t. probe = Some t \<and> detectColumns probe columns = length (js_split t CHR '' '')"
  by (cases probe) (auto simp add: detectColumns_def Let_def split: if_splits)

text \<open>
  Claim C9 as stated fails for a negative scroll offset (as reported during elastic
  overscroll) on a document that does not overflow: the offset is nonzero, and the
  function returns the body.
\<close>

theorem getScrollElement_nonzero_counterexample:
  "\<not> (getScrollElement True
          (Some \<lparr>scrollTop = -1, scrollHeight = 600, clientHeight = 600\<rparr>)
          = Inr DocumentElement
        \<longleftrightarrow> (scrollTop \<lparr>scrollTop = -1, scrollHeight = 600, clientHeight = 600\<rparr> \<noteq> 0
             \<or> scrollHeight \<lparr>scrollTop = -1, scrollHeight = 600, clientHeight = 600\<rparr>
                 > clientHeight \<lparr>scrollTop = -1, scrollHeight = 600, clientHeight = 600\<rparr>))"
  by (simp add: getScrollElement_def)

text \<open>
  Claim C9, amended. When \<open>window\<close> is defined, on the document \<open>d\<close> of the page, the
  function returns the root document element exactly when that element reports a
  positive scroll offset or its content height exceeds its client height, and the body
  otherwise; the result is a function of these two conditions alone.
\<close>

theorem getScrollElement_positive_offset:
  "getScrollElement True (Some d)
     = Inr (if 0 < scrollTop d \<or> clientHeight d < scrollHeight d
            then DocumentElement else Body)
   \<and> (getScrollElement True (Some d) = Inr DocumentElement
        \<longleftrightarrow> 0 < scrollTop d \<or> clientHeight d < scrollHeight d)
   \<and> (getScrollElement True (Some d) = Inr Body
        \<longleftrightarrow> \<not> (0 < scrollTop d \<or> clientHeight d < scrollHeight d))"
  by (simp add: getScrollElement_def)

text \<open>Where no global \<open>document\<close> exists, the call throws.\<close>

lemma getScrollElement_no_document:
  "getScrollElement window_defined None = Inl ReferenceError"
  by (simp add: getScrollElement_def)

text \<open>
  Claim C10. When the callback is not provided or there are no virtual rows, the effect
  changes nothing: the ref keeps its value and no notification is sent, whatever the
  rows, the row count and the threshold are.
\<close>

theorem endReachedEffect_skips:
  assumes "\<not> endReached \<or> virtualRows = []"
  shows "endReachedEffect endReached virtualRows rowCnt threshold ref = (ref, False)"
  using assms by (auto simp add: endReachedEffect_def)

theorem endReachedEffect_skips_witness:
  "endReachedEffect False [6, 7, 8] (Num 10) 2 5 = (5, False)
   \<and> endReachedEffect True [] (Num 10) 2 5 = (5, False)"
  using endReachedEffect_skips[of False "[6, 7, 8]" "Num 10" 2 5]
    endReachedEffect_skips[of True "[]" "Num 10" 2 5]
  by simp


lemma endReachedEffect_fires_iff:
  assumes "virtualRows \<noteq> []"
  shows "endReachedEffect True virtualRows (Num n) threshold ref
           = (if n - threshold \<le> of_nat (last virtualRows) \<and> int (last virtualRows) \<noteq> ref
              then (int (last virtualRows), True) else (ref, False))"
  using assms by (simp add: endReachedEffect_def Let_def)

lemma endReachedEffect_same_index:
  "endReachedEffect endReached virtualRows rowCnt threshold
      (fst (endReachedEffect endReached virtualRows rowCnt threshold ref))
     = (fst (endReachedEffect endReached virtualRows rowCnt threshold ref), False)"
  by (auto simp add: endReachedEffect_def Let_def)

lemma runEffects_stay_quiet:
  assumes "endReachedEffect endReached virtualRows rowCnt threshold ref = (ref, False)"
  shows "runEffects endReached threshold ref (replicate k (virtualRows, rowCnt))
           = replicate k False"
  using assms by (induction k) simp_all

lemma runEffects_stay:
  "runEffects endReached threshold ref (replicate (Suc k) (virtualRows, rowCnt))
     = snd (endReachedEffect endReached virtualRows rowCnt threshold ref) # replicate k False"
proof -
  obtain ref' fired where
    s: "endReachedEffect endReached virtualRows rowCnt threshold ref = (ref', fired)"
    by (cases "endReachedEffect endReached virtualRows rowCnt threshold ref")
  have "endReachedEffect endReached virtualRows rowCnt threshold ref' = (ref', False)"
    using endReachedEffect_same_index[of endReached virtualRows rowCnt threshold ref]
    by (simp add: s)
  then have "runEffects endReached threshold ref' (replicate k (virtualRows, rowCnt))
               = replicate k False"
    by (rule runEffects_stay_quiet)
  then show ?thesis by (simp add: s)
qed

text \<open>
  Claim C4 as stated fails: with row count 10 and threshold 2, the last visible row going
  8, 9, 8 sends three notifications. The second is sent while the last visible row is
  among 8 and 9, and the third is sent for an index that is no new maximum.
\<close>

theorem endReached_new_max_counterexample:
  "runEffects True 2 initialLastVirtualRowRef
     [([6, 7, 8], Num 10), ([7, 8, 9], Num 10), ([6, 7, 8], Num 10)] = [True, True, True]
   \<and> runEffects True 2 initialLastVirtualRowRef
     [([6, 7, 8], Num 10), ([7, 8, 9], Num 10), ([6, 7, 8], Num 10)] \<noteq> [True, False, False]"
  by (simp add: endReachedEffect_def initialLastVirtualRowRef_def)

text \<open>
  Claim C4, amended. With row count 10 and threshold 2 the detector fires when the last
  visible row first reaches 8 (the ref still being \<open>-1\<close>); while the same render repeats,
  only its first run can fire; in general it fires exactly when the last visible row is
  at or past \<open>rowCount - threshold\<close> and differs from the ref, which then becomes that
  index; and with row count 20 it fires when the last visible row reaches 18, whatever
  other index the ref holds.
\<close>

theorem endReached_once_per_index:
  "(virtualRows \<noteq> [] \<and> last virtualRows = 8 \<longrightarrow>
      endReachedEffect True virtualRows (Num 10) 2 initialLastVirtualRowRef = (8, True))
   \<and> runEffects endReached threshold ref (replicate (Suc k) (virtualRows, rowCnt))
       = snd (endReachedEffect endReached virtualRows rowCnt threshold ref) # replicate k False
   \<and> (virtualRows \<noteq> [] \<longrightarrow>
        snd (endReachedEffect True virtualRows (Num n) threshold ref)
          = (n - threshold \<le> of_nat (last virtualRows) \<and> int (last virtualRows) \<noteq> ref)
        \<and> fst (endReachedEffect True virtualRows (Num n) threshold ref)
          = (if snd (endReachedEffect True virtualRows (Num n) threshold ref)
             then int (last virtualRows) else ref))
   \<and> (virtualRows \<noteq> [] \<and> last virtualRows = 18 \<and> ref \<noteq> 18 \<longrightarrow>
        endReachedEffect True virtualRows (Num 20) 2 ref = (18, True))"
proof -
  have a: "virtualRows \<noteq> [] \<and> last virtualRows = 8 \<longrightarrow>
      endReachedEffect True virtualRows (Num 10) 2 initialLastVirtualRowRef = (8, True)"
    by (simp add: endReachedEffect_fires_iff initialLastVirtualRowRef_def)
  have c: "virtualRows \<noteq> [] \<longrightarrow>
        snd (endReachedEffect True virtualRows (Num n) threshold ref)
          = (n - threshold \<le> of_nat (last virtualRows) \<and> int (last virtualRows) \<noteq> ref)
        \<and> fst (endReachedEffect True virtualRows (Num n) threshold ref)
          = (if snd (endReachedEffect True virtualRows (Num n) threshold ref)
             then int (last virtualRows) else ref)"
    by (simp add: endReachedEffect_fires_iff)
  have d: "virtualRows \<noteq> [] \<and> last virtualRows = 18 \<and> ref \<noteq> 18 \<longrightarrow>
        endReachedEffect True virtualRows (Num 20) 2 ref = (18, True)"
    by (simp add: endReachedEffect_fires_iff)
  from a c d runEffects_stay[of endReached threshold ref k virtualRows rowCnt]
  show ?thesis by blast
qed

theorem endReached_once_per_index_witness:
  "endReachedEffect True [6, 7, 8] (Num 10) 2 initialLastVirtualRowRef = (8, True)
   \<and> runEffects True 2 initialLastVirtualRowRef (replicate (Suc 2) ([6, 7, 8], Num 10))
       = True # replicate 2 False
   \<and> endReachedEffect True [16, 17, 18] (Num 20) 2 8 = (18, True)"
proof -
  note first = endReached_once_per_index
    [of "[6, 7, 8]" True 2 initialLastVirtualRowRef 2 "Num 10" 10]
  note later = endReached_once_per_index[of "[16, 17, 18]" True 2 8 2 "Num 20" 20]
  have a: "endReachedEffect True [6, 7, 8] (Num 10) 2 initialLastVirtualRowRef = (8, True)"
    using first[THEN conjunct1] by simp
  have b: "runEffects True 2 initialLastVirtualRowRef (replicate (Suc 2) ([6, 7, 8], Num 10))
       = snd (endReachedEffect True [6, 7, 8] (Num 10) 2 initialLastVirtualRowRef)
           # replicate 2 False"
    by (rule first[THEN conjunct2, THEN conjunct1])
  have c: "endReachedEffect True [16, 17, 18] (Num 20) 2 8 = (18, True)"
    using later[THEN conjunct2, THEN conjunct2, THEN conjunct2] by simp
  show ?thesis
    by (simp only: a b c snd_conv simp_thms)
qed

lemma endReachedEffect_never:
  assumes "\<forall>i \<in> set virtualRows. i < n" and "threshold \<le> 0 \<or> n = 0"
  shows "endReachedEffect endReached virtualRows (Num (of_nat n)) threshold ref = (ref, False)"
proof (cases "virtualRows = []")
  case True
  then show ?thesis by (simp add: endReachedEffect_def)
next
  case False
  then have "last virtualRows \<in> set virtualRows" by simp
  with assms(1) have lt: "last virtualRows < n" by blast
  with assms(2) have t: "threshold \<le> 0" by auto
  from lt have "(of_nat (last virtualRows) :: rat) < of_nat n" by (simp only: of_nat_less_iff)
  with t have "\<not> (of_nat n - threshold \<le> (of_nat (last virtualRows) :: rat))" by linarith
  then show ?thesis by (simp add: endReachedEffect_def Let_def)
qed

text \<open>
  Claim C5. In an execution whose virtual rows always lie below the row count of their
  render (the engine's window bound), no notification is ever sent in renders where the
  threshold is at most 0 or the row count is 0.
\<close>

theorem endReached_never_fires:
  assumes "\<forall>(virtualRows, n) \<in> set renders.
             (\<forall>i \<in> set virtualRows. i < n) \<and> (threshold \<le> 0 \<or> n = 0)"
  shows "True \<notin> set (runEffects endReached threshold ref
                       (map (\<lambda>(virtualRows, n). (virtualRows, Num (of_nat n))) renders))"
  using assms
proof (induction renders arbitrary: ref)
  case Nil
  then show ?case by simp
next
  case (Cons render renders)
  obtain virtualRows n where r: "render = (virtualRows, n)" by (cases render)
  from Cons.prems r have "(\<forall>i \<in> set virtualRows. i < n)" and "threshold \<le> 0 \<or> n = 0"
    by auto
  then have "endReachedEffect endReached virtualRows (Num (of_nat n)) threshold ref
               = (ref, False)"
    by (rule endReachedEffect_never)
  moreover from Cons.prems have "\<forall>(virtualRows, n) \<in> set renders.
             (\<forall>i \<in> set virtualRows. i < n) \<and> (threshold \<le> 0 \<or> n = 0)"
    by simp
  then have "True \<notin> set (runEffects endReached threshold ref
                       (map (\<lambda>(virtualRows, n). (virtualRows, Num (of_nat n))) renders))"
    by (rule Cons.IH)
  ultimately show ?case by (simp add: r)
qed

theorem endReached_never_fires_witness:
  "runEffects True 0 (-1) [([7, 8, 9], Num 10), ([], Num 0), ([8, 9], Num 10)]
     = [False, False, False]"
  using endReached_never_fires[of "[([7, 8, 9], 10), ([], 0), ([8, 9], 10)]" 0 True "-1"]
  by (simp add: endReachedEffect_def)

end
